theory Spec2Isabelle
  imports Main "HOL-Library.Sublist" "HOL-Library.Word"
begin

section \<open>SelectField: the data model\<close>

text \<open>
  The component \<open>SelectField\<close> of
  \<^verbatim>\<open>apps/frontend/src/components/customUI/form/SelectField.tsx\<close>.

  A JavaScript string is a list of code units, of any type \<open>'c\<close>. The built-in
  \<open>String.prototype.toLowerCase\<close> is not code of the component: it is the parameter
  \<open>toLowerCase\<close> of every definition that reaches it, a function from strings to
  strings of which nothing is assumed (it need not work code unit by code unit, nor keep
  the length). The names of keys are ASCII and stay \<open>string\<close>s.

  \<open>SelectOption\<close> has the optional field \<open>disabled?: boolean\<close>: \<open>None\<close> is the
  absent field (\<open>undefined\<close>). The fields carry the prefix \<open>opt_\<close> because
  \<open>value\<close> is a command of Isabelle and \<open>disabled\<close> is also a prop of the component.
\<close>

record 'c SelectOption =
  opt_value :: "'c list"
  opt_label :: "'c list"
  opt_disabled :: "bool option"

text \<open>
  The props that the handlers read. \<open>onChange?: (value: string) => void\<close> is optional;
  its invocations are observed as the list of the arguments it was called with.
\<close>

record 'c SelectFieldProps =
  options :: "'c SelectOption list"
  onChange :: "('c list \<Rightarrow> unit) option"
  searchable :: bool
  disabled :: bool

text \<open>The three \<open>useState\<close> cells, and their initial values.\<close>

record 'c ControlState =
  isOpen :: bool
  searchTerm :: "'c list"
  focusedIndex :: int

definition initialState :: "'c ControlState" where
  "initialState = \<lparr>isOpen = False, searchTerm = [], focusedIndex = - 1\<rparr>"

section \<open>The filtered option list\<close>

text \<open>\<open>s.includes(t)\<close> (\<open>includes\<close> is a keyword of Isabelle): \<open>t\<close> occurs in \<open>s\<close> at some position.\<close>

fun js_includes :: "'c list \<Rightarrow> 'c list \<Rightarrow> bool" where
  "js_includes [] t = (t = [])"
| "js_includes (c # s) t = (prefix t (c # s) \<or> js_includes s t)"

text \<open>The truthiness test \<open>option.disabled\<close>: an absent field is falsy.\<close>

definition is_disabled :: "'c SelectOption \<Rightarrow> bool" where
  "is_disabled option = (opt_disabled option = Some True)"

text \<open>
  \<^verbatim>\<open>
  const filteredOptions = searchable
    ? options.filter((option) =>
          option.label.toLowerCase().includes(searchTerm.toLowerCase()) &&
          !option.disabled)
    : options.filter((option) => !option.disabled);
  \<close>
\<close>

definition filteredOptions ::
  "('c list \<Rightarrow> 'c list) \<Rightarrow> 'c SelectFieldProps \<Rightarrow> 'c list \<Rightarrow> 'c SelectOption list" where
  "filteredOptions toLowerCase p term =
     (if searchable p
      then filter (\<lambda>option. js_includes (toLowerCase (opt_label option)) (toLowerCase term)
                             \<and> \<not> is_disabled option) (options p)
      else filter (\<lambda>option. \<not> is_disabled option) (options p))"

text \<open>
  Substring match, position by position: at some offset \<open>i\<close> of \<open>s\<close>, every code
  unit of \<open>t\<close> is the code unit of \<open>s\<close> there.
\<close>

definition has_substring :: "'c list \<Rightarrow> 'c list \<Rightarrow> bool" where
  "has_substring s t =
     (\<exists>i \<in> set [0 ..< Suc (length s)]. i + length t \<le> length s \<and>
        (\<forall>j \<in> set [0 ..< length t]. s ! (i + j) = t ! j))"

text \<open>
  What the specification calls a case-insensitive substring match, for a lower-casing
  \<open>lower_unit\<close> of single code units: at some offset \<open>i\<close> of the label, every code unit of
  the term equals the label's code unit there up to \<open>lower_unit\<close>. A label that contains the
  term verbatim contains it in this sense, whatever \<open>lower_unit\<close> is.
\<close>

definition contains_ci :: "('c \<Rightarrow> 'c) \<Rightarrow> 'c list \<Rightarrow> 'c list \<Rightarrow> bool" where
  "contains_ci lower_unit label term =
     (\<exists>i \<in> set [0 ..< Suc (length label)]. i + length term \<le> length label \<and>
        (\<forall>j \<in> set [0 ..< length term]. lower_unit (label ! (i + j)) = lower_unit (term ! j)))"

subsection \<open>\<open>toLowerCase\<close> on the strings of the scenarios\<close>

text \<open>
  On strings of code units below 256 (Latin-1) \<open>toLowerCase\<close> works code unit by code
  unit: A..Z and the upper-case letters 0xC0..0xDE but 0xD7 move up by 32. This is the
  function the scenarios with ASCII labels are evaluated with.
\<close>

definition lower_char :: "char \<Rightarrow> char" where
  "lower_char c =
     (let n = (of_char c :: nat)
      in if (65 \<le> n \<and> n \<le> 90) \<or> (192 \<le> n \<and> n \<le> 222 \<and> n \<noteq> 215)
         then char_of (n + 32) else c)"

definition toLowerCase_latin1 :: "string \<Rightarrow> string" where
  "toLowerCase_latin1 s = map lower_char s"

text \<open>
  On strings of Greek capital letters (UTF-16 code units 0x0391..0x03A9)
  \<open>toLowerCase\<close> moves every letter up by 0x20, but a capital sigma 0x03A3 that follows
  a letter and is not followed by one becomes the final sigma 0x03C2 instead of 0x03C3
  (the rule Final_Sigma of Unicode's SpecialCasing, which ECMA-262 prescribes):
  the lower-cased word 0x039F 0x0394 0x039F 0x03A3 ends in 0x03C2, and the lower-cased
  single letter 0x03A3 is 0x03C3.
  \<open>after_letter\<close> says that the code unit before is a Greek letter.
\<close>

definition greek_capital :: "16 word \<Rightarrow> bool" where
  "greek_capital u = (0x391 \<le> u \<and> u \<le> 0x3A9)"

definition greek_letter :: "16 word \<Rightarrow> bool" where
  "greek_letter u = (greek_capital u \<or> (0x3B1 \<le> u \<and> u \<le> 0x3C9))"

fun lower_greek :: "bool \<Rightarrow> 16 word list \<Rightarrow> 16 word list" where
  "lower_greek after_letter [] = []"
| "lower_greek after_letter (u # us) =
     (if u = 0x3A3 \<and> after_letter \<and> \<not> (case us of [] \<Rightarrow> False | v # _ \<Rightarrow> greek_letter v)
      then 0x3C2
      else if greek_capital u then u + 0x20 else u) # lower_greek (greek_letter u) us"

definition toLowerCase_greek :: "16 word list \<Rightarrow> 16 word list" where
  "toLowerCase_greek s = lower_greek False s"

text \<open>The option list of the specification's scenario.\<close>

definition apple :: "char SelectOption" where
  "apple = \<lparr>opt_value = ''a'', opt_label = ''Apple'', opt_disabled = None\<rparr>"

definition banana :: "char SelectOption" where
  "banana = \<lparr>opt_value = ''b'', opt_label = ''Banana'', opt_disabled = Some True\<rparr>"

definition cherry :: "char SelectOption" where
  "cherry = \<lparr>opt_value = ''c'', opt_label = ''Cherry'', opt_disabled = None\<rparr>"

definition fruit :: "char SelectFieldProps" where
  "fruit = \<lparr>options = [apple, banana, cherry], onChange = Some (\<lambda>v. ()),
            searchable = True, disabled = False\<rparr>"

text \<open>
  A searchable control with a single option, whose label is the Greek word
  0x039F 0x0394 0x039F 0x03A3 (omicron, delta, omicron, sigma), and the search term that
  is the capital sigma alone.
\<close>

definition odos :: "16 word SelectOption" where
  "odos = \<lparr>opt_value = [0x6F], opt_label = [0x39F, 0x394, 0x39F, 0x3A3], opt_disabled = None\<rparr>"

definition street :: "16 word SelectFieldProps" where
  "street = \<lparr>options = [odos], onChange = Some (\<lambda>v. ()), searchable = True, disabled = False\<rparr>"

definition sigma :: "16 word list" where
  "sigma = [0x3A3]"

section \<open>The handlers\<close>

text \<open>
  Every handler takes the props and the state of the render it was created in and
  returns the state after its \<open>set...\<close> calls, with the arguments of the calls of
  \<open>onChange\<close> it made (\<open>onChange?.(v)\<close> calls nothing when the prop is absent).

  \<^verbatim>\<open>
  const handleSelect = (option: SelectOption) => {
    if (option.disabled) return;
    onChange?.(option.value);
    setIsOpen(false);
    setSearchTerm("");
    setFocusedIndex(-1);
  };
  \<close>
\<close>

definition handleSelect ::
  "'c SelectFieldProps \<Rightarrow> 'c SelectOption \<Rightarrow> 'c ControlState
     \<Rightarrow> 'c ControlState \<times> 'c list list" where
  "handleSelect p option st =
     (if is_disabled option then (st, [])
      else (st\<lparr>isOpen := False, searchTerm := [], focusedIndex := - 1\<rparr>,
            case onChange p of None \<Rightarrow> [] | Some f \<Rightarrow> [opt_value option]))"

text \<open>
  The keyboard event is its \<open>key\<close> string.

  \<^verbatim>\<open>
  const handleKeyDown = (e: React.KeyboardEvent) => {
    if (!isOpen) {
      if (e.key === "Enter" || e.key === " ") { e.preventDefault(); setIsOpen(true); }
      return;
    }
    switch (e.key) {
      case "ArrowDown":
        setFocusedIndex((prev) => prev < filteredOptions.length - 1 ? prev + 1 : 0);
        break;
      case "ArrowUp":
        setFocusedIndex((prev) => prev > 0 ? prev - 1 : filteredOptions.length - 1);
        break;
      case "Enter":
        if (focusedIndex >= 0 && focusedIndex < filteredOptions.length) {
          handleSelect(filteredOptions[focusedIndex]);
        }
        break;
      case "Escape":
        setIsOpen(false); setSearchTerm(""); setFocusedIndex(-1);
        break;
    }
  };
  \<close>
\<close>

definition handleKeyDown ::
  "('c list \<Rightarrow> 'c list) \<Rightarrow> 'c SelectFieldProps \<Rightarrow> string \<Rightarrow> 'c ControlState
     \<Rightarrow> 'c ControlState \<times> 'c list list" where
  "handleKeyDown toLowerCase p key st =
     (let filtered = filteredOptions toLowerCase p (searchTerm st); prev = focusedIndex st
      in if \<not> isOpen st then
           (if key = ''Enter'' \<or> key = '' '' then (st\<lparr>isOpen := True\<rparr>, []) else (st, []))
         else if key = ''ArrowDown'' then
           (st\<lparr>focusedIndex := (if prev < int (length filtered) - 1 then prev + 1 else 0)\<rparr>, [])
         else if key = ''ArrowUp'' then
           (st\<lparr>focusedIndex := (if prev > 0 then prev - 1 else int (length filtered) - 1)\<rparr>, [])
         else if key = ''Enter'' then
           (if focusedIndex st \<ge> 0 \<and> focusedIndex st < int (length filtered)
            then handleSelect p (filtered ! nat (focusedIndex st)) st
            else (st, []))
         else if key = ''Escape'' then
           (st\<lparr>isOpen := False, searchTerm := [], focusedIndex := - 1\<rparr>, [])
         else (st, []))"

text \<open>
  The document's \<open>mousedown\<close> listener. \<open>container\<close> says that
  \<open>containerRef.current\<close> is set, \<open>inside\<close> that it contains the event's target.

  \<^verbatim>\<open>
  if (containerRef.current && !containerRef.current.contains(event.target as Node)) {
    setIsOpen(false); setSearchTerm(""); setFocusedIndex(-1);
  }
  \<close>
\<close>

definition handleClickOutside ::
  "bool \<Rightarrow> bool \<Rightarrow> 'c ControlState \<Rightarrow> 'c ControlState \<times> 'c list list" where
  "handleClickOutside container inside st =
     (if container \<and> \<not> inside
      then (st\<lparr>isOpen := False, searchTerm := [], focusedIndex := - 1\<rparr>, [])
      else (st, []))"

text \<open>The input surface: \<^verbatim>\<open>onClick={() => !disabled && setIsOpen(!isOpen)}\<close>.\<close>

definition button_onClick ::
  "'c SelectFieldProps \<Rightarrow> 'c ControlState \<Rightarrow> 'c ControlState \<times> 'c list list" where
  "button_onClick p st = (if \<not> disabled p then (st\<lparr>isOpen := \<not> isOpen st\<rparr>, []) else (st, []))"

text \<open>The search input: \<^verbatim>\<open>onChange={(e) => setSearchTerm(e.target.value)}\<close>.\<close>

definition search_onChange ::
  "'c list \<Rightarrow> 'c ControlState \<Rightarrow> 'c ControlState \<times> 'c list list" where
  "search_onChange text st = (st\<lparr>searchTerm := text\<rparr>, [])"

text \<open>An option row: \<^verbatim>\<open>onMouseEnter={() => setFocusedIndex(index)}\<close>.\<close>

definition row_onMouseEnter ::
  "nat \<Rightarrow> 'c ControlState \<Rightarrow> 'c ControlState \<times> 'c list list" where
  "row_onMouseEnter index st = (st\<lparr>focusedIndex := int index\<rparr>, [])"

section \<open>User interactions\<close>

text \<open>
  The events the rendered tree can receive, and the handler each one reaches. The button
  carries \<open>disabled={disabled}\<close>, so a disabled control gets no key event. The panel is
  rendered only when \<open>isOpen\<close>, the search input only when also \<open>searchable\<close>, and
  there is one row for each index of \<open>filteredOptions\<close>, whose \<open>onClick\<close> is
  \<open>handleSelect(option)\<close>; an event on an element that is not rendered changes nothing.
  The container \<open>div\<close> is always rendered, so \<open>containerRef.current\<close> is set.
\<close>

datatype 'c event =
    ButtonClick
  | ButtonKeyDown string
  | SearchInput "'c list"
  | RowMouseEnter nat
  | RowClick nat
  | MouseDown bool

definition dispatch ::
  "('c list \<Rightarrow> 'c list) \<Rightarrow> 'c SelectFieldProps \<Rightarrow> 'c event \<Rightarrow> 'c ControlState
     \<Rightarrow> 'c ControlState \<times> 'c list list" where
  "dispatch toLowerCase p ev st =
     (let filtered = filteredOptions toLowerCase p (searchTerm st)
      in case ev of
           ButtonClick \<Rightarrow> button_onClick p st
         | ButtonKeyDown key \<Rightarrow> if disabled p then (st, []) else handleKeyDown toLowerCase p key st
         | SearchInput text \<Rightarrow>
             if isOpen st \<and> searchable p then search_onChange text st else (st, [])
         | RowMouseEnter index \<Rightarrow>
             if isOpen st \<and> index < length filtered then row_onMouseEnter index st else (st, [])
         | RowClick index \<Rightarrow>
             if isOpen st \<and> index < length filtered then handleSelect p (filtered ! index) st
             else (st, [])
         | MouseDown inside \<Rightarrow> handleClickOutside True inside st)"

text \<open>A sequence of interactions, collecting the calls of \<open>onChange\<close> in order.\<close>

fun run ::
  "('c list \<Rightarrow> 'c list) \<Rightarrow> 'c SelectFieldProps \<Rightarrow> 'c event list
     \<Rightarrow> 'c ControlState \<times> 'c list list \<Rightarrow> 'c ControlState \<times> 'c list list"
  where
  "run toLowerCase p [] c = c"
| "run toLowerCase p (ev # evs) (st, calls) =
     (case dispatch toLowerCase p ev st of
        (st', new) \<Rightarrow> run toLowerCase p evs (st', calls @ new))"

section \<open>Predicates of the specification\<close>

text \<open>\<open>focusedIndex\<close> is \<open>-1\<close> or a valid index into the currently filtered list.\<close>

definition focus_ok ::
  "('c list \<Rightarrow> 'c list) \<Rightarrow> 'c SelectFieldProps \<Rightarrow> 'c ControlState \<Rightarrow> bool" where
  "focus_ok toLowerCase p st =
     (focusedIndex st = - 1 \<or>
      (0 \<le> focusedIndex st \<and>
       focusedIndex st < int (length (filteredOptions toLowerCase p (searchTerm st)))))"

text \<open>
  The two interactions after which \<open>focusedIndex\<close> is outside the filtered list:
  ArrowDown on an open panel whose filtered list is empty, and a change of the search
  term to one whose filtered list is not longer than \<open>focusedIndex\<close>.
\<close>

definition unfocuses ::
  "('c list \<Rightarrow> 'c list) \<Rightarrow> 'c SelectFieldProps \<Rightarrow> 'c event \<Rightarrow> 'c ControlState \<Rightarrow> bool"
  where
  "unfocuses toLowerCase p ev st =
     (case ev of
        ButtonKeyDown key \<Rightarrow>
          key = ''ArrowDown'' \<and> \<not> disabled p \<and> isOpen st
          \<and> filteredOptions toLowerCase p (searchTerm st) = []
      | SearchInput text \<Rightarrow>
          isOpen st \<and> searchable p
          \<and> int (length (filteredOptions toLowerCase p text)) \<le> focusedIndex st
      | _ \<Rightarrow> False)"

fun unfocused_in ::
  "('c list \<Rightarrow> 'c list) \<Rightarrow> 'c SelectFieldProps \<Rightarrow> 'c event list \<Rightarrow> 'c ControlState \<Rightarrow> bool"
  where
  "unfocused_in toLowerCase p [] st = False"
| "unfocused_in toLowerCase p (ev # evs) st =
     (unfocuses toLowerCase p ev st
      \<or> unfocused_in toLowerCase p evs (fst (dispatch toLowerCase p ev st)))"

text \<open>A control without options.\<close>

definition no_options :: "char SelectFieldProps" where
  "no_options = \<lparr>options = [], onChange = Some (\<lambda>v. ()), searchable = False, disabled = False\<rparr>"

text \<open>
  The open panel of \<open>fruit\<close> with an empty search term, where the filtered list is
  Apple, Cherry, and the pointer is over Cherry.
\<close>

definition hovered :: "char ControlState" where
  "hovered = \<lparr>isOpen = True, searchTerm = [], focusedIndex = 1\<rparr>"

section \<open>Properties of the filtered list\<close>

lemma includes_sublist: "js_includes s t \<longleftrightarrow> sublist t s"
  by (induction s) (simp_all add: sublist_Cons_right)

lemma sublist_positions:
  "sublist t s \<longleftrightarrow> (\<exists>i. i + length t \<le> length s \<and> (\<forall>j < length t. s ! (i + j) = t ! j))"
proof
  assume "sublist t s"
  then obtain ps ss where s: "s = ps @ t @ ss"
    by (auto simp: sublist_def)
  have "length ps + length t \<le> length s"
    by (simp add: s)
  moreover have "\<forall>j < length t. s ! (length ps + j) = t ! j"
    by (simp add: s nth_append)
  ultimately show "\<exists>i. i + length t \<le> length s \<and> (\<forall>j < length t. s ! (i + j) = t ! j)"
    by blast
next
  assume "\<exists>i. i + length t \<le> length s \<and> (\<forall>j < length t. s ! (i + j) = t ! j)"
  then obtain i where le: "i + length t \<le> length s"
    and eq: "\<forall>j < length t. s ! (i + j) = t ! j"
    by blast
  have "take (length t) (drop i s) = t"
    using le eq by (intro nth_equalityI) simp_all
  then have "s = take i s @ t @ drop (length t) (drop i s)"
    by (metis append_take_drop_id)
  then show "sublist t s"
    unfolding sublist_def by blast
qed

lemma has_substring_positions:
  "has_substring s t \<longleftrightarrow>
     (\<exists>i. i + length t \<le> length s \<and> (\<forall>j < length t. s ! (i + j) = t ! j))"
proof -
  have "i \<le> length s" if "i + length t \<le> length s" for i
    using that by simp
  then show ?thesis
    unfolding has_substring_def
    by (simp only: set_upt atLeastLessThan_iff Bex_def Ball_def less_Suc_eq_le) blast
qed

lemma includes_has_substring: "js_includes s t \<longleftrightarrow> has_substring s t"
  by (simp only: includes_sublist sublist_positions has_substring_positions)

lemma contains_ci_map: "contains_ci lower_unit label term \<longleftrightarrow> has_substring (map lower_unit label) (map lower_unit term)"
proof -
  have "has_substring (map lower_unit label) (map lower_unit term) \<longleftrightarrow>
        (\<exists>i. i + length term \<le> length label \<and>
           (\<forall>j < length term. lower_unit (label ! (i + j)) = lower_unit (term ! j)))"
    unfolding has_substring_positions
    by (intro ex_cong1) auto
  moreover have "contains_ci lower_unit label term \<longleftrightarrow>
        (\<exists>i. i + length term \<le> length label \<and>
           (\<forall>j < length term. lower_unit (label ! (i + j)) = lower_unit (term ! j)))"
  proof -
    have "i \<le> length label" if "i + length term \<le> length label" for i
      using that by simp
    then show ?thesis
      unfolding contains_ci_def
      by (simp only: set_upt atLeastLessThan_iff Bex_def Ball_def less_Suc_eq_le) blast
  qed
  ultimately show ?thesis
    by simp
qed

lemma filteredOptions_filter:
  "filteredOptions toLowerCase p term =
     filter (\<lambda>option. \<not> is_disabled option
               \<and> (searchable p \<longrightarrow>
                    has_substring (toLowerCase (opt_label option)) (toLowerCase term)))
       (options p)"
  unfolding filteredOptions_def
  by (auto simp: includes_has_substring intro: filter_cong)

lemmas scenario_defs = fruit_def apple_def banana_def cherry_def no_options_def hovered_def

lemmas handler_defs = dispatch_def handleKeyDown_def handleSelect_def button_onClick_def
  search_onChange_def row_onMouseEnter_def handleClickOutside_def

lemmas eval_defs = handler_defs filteredOptions_def is_disabled_def toLowerCase_latin1_def
  lower_char_def char_of_def bit_Suc_0_iff initialState_def Let_def scenario_defs

lemma toLowerCase_greek_odos:
  "toLowerCase_greek (opt_label odos) = [0x3BF, 0x3B4, 0x3BF, 0x3C2]"
  by (simp add: toLowerCase_greek_def odos_def greek_letter_def greek_capital_def)

lemma toLowerCase_greek_sigma: "toLowerCase_greek sigma = [0x3C3]"
  by (simp add: toLowerCase_greek_def sigma_def greek_letter_def greek_capital_def)

text \<open>
  C1, as the specification states it: with \<open>searchable\<close> the visible set is exactly the
  options that are not disabled and whose label contains the search term
  case-insensitively. The option of \<open>street\<close> is not disabled and its label contains
  the search term \<open>sigma\<close> verbatim, as its last code unit; but lower-casing the whole
  label turns that sigma into the final sigma 0x03C2, lower-casing the term gives 0x03C3,
  and the option is not visible.
\<close>

theorem filteredOptions_visible_set_counterexample:
  "searchable street \<and> odos \<in> set (options street) \<and> \<not> is_disabled odos
   \<and> has_substring (opt_label odos) sigma
   \<and> odos \<notin> set (filteredOptions toLowerCase_greek street sigma)"
proof -
  have "has_substring (opt_label odos) sigma"
    by (simp add: has_substring_def odos_def sigma_def)
  moreover have "filteredOptions toLowerCase_greek street sigma = []"
    by (simp add: filteredOptions_def street_def toLowerCase_greek_odos toLowerCase_greek_sigma)
  ultimately show ?thesis
    by (simp add: street_def is_disabled_def odos_def)
qed

text \<open>
  C1, amended. For every option list, search term and function \<open>toLowerCase\<close>, the
  visible list keeps, in the order of \<open>options\<close>, exactly the options that are not
  disabled and, when \<open>searchable\<close> is true, whose lower-cased label contains the
  lower-cased search term as a substring; when \<open>searchable\<close> is false exactly the
  options that are not disabled. In every configuration a disabled option is not in the
  visible set. Where \<open>toLowerCase\<close> works code unit by code unit on the search term
  and on the labels (as it does on strings of code units below 256), the match is the
  case-insensitive substring match of the label and the term.
\<close>

theorem filteredOptions_visible_set:
  "set (filteredOptions toLowerCase p term) =
     {option \<in> set (options p).
        \<not> is_disabled option
        \<and> (searchable p \<longrightarrow>
             has_substring (toLowerCase (opt_label option)) (toLowerCase term))}
   \<and> filteredOptions toLowerCase p term =
       filter (\<lambda>option. \<not> is_disabled option
                 \<and> (searchable p \<longrightarrow>
                      has_substring (toLowerCase (opt_label option)) (toLowerCase term)))
         (options p)
   \<and> (\<forall>option \<in> set (options p).
         is_disabled option \<longrightarrow> option \<notin> set (filteredOptions toLowerCase p term))
   \<and> (toLowerCase term = map lower_unit term
        \<and> (\<forall>option \<in> set (options p).
              toLowerCase (opt_label option) = map lower_unit (opt_label option)) \<longrightarrow>
        set (filteredOptions toLowerCase p term) =
          {option \<in> set (options p).
             \<not> is_disabled option
             \<and> (searchable p \<longrightarrow> contains_ci lower_unit (opt_label option) term)})"
proof (intro conjI impI)
  show "filteredOptions toLowerCase p term =
       filter (\<lambda>option. \<not> is_disabled option
                 \<and> (searchable p \<longrightarrow>
                      has_substring (toLowerCase (opt_label option)) (toLowerCase term)))
         (options p)"
    by (rule filteredOptions_filter)
next
  show "set (filteredOptions toLowerCase p term) =
     {option \<in> set (options p).
        \<not> is_disabled option
        \<and> (searchable p \<longrightarrow>
             has_substring (toLowerCase (opt_label option)) (toLowerCase term))}"
    unfolding filteredOptions_filter by auto
next
  show "\<forall>option \<in> set (options p).
         is_disabled option \<longrightarrow> option \<notin> set (filteredOptions toLowerCase p term)"
    unfolding filteredOptions_filter by simp
next
  assume unitwise: "toLowerCase term = map lower_unit term
        \<and> (\<forall>option \<in> set (options p).
              toLowerCase (opt_label option) = map lower_unit (opt_label option))"
  show "set (filteredOptions toLowerCase p term) =
          {option \<in> set (options p).
             \<not> is_disabled option
             \<and> (searchable p \<longrightarrow> contains_ci lower_unit (opt_label option) term)}"
    unfolding filteredOptions_filter using unitwise by (auto simp: contains_ci_map)
qed

lemma contains_ci_scenario:
  "contains_ci lower_char ''Apple'' ''PL''" "\<not> contains_ci lower_char ''Banana'' ''PL''"
  "\<not> contains_ci lower_char ''Cherry'' ''PL''" "contains_ci lower_char ''Banana'' ''AN''"
  by code_simp+

theorem filteredOptions_visible_set_witness:
  "toLowerCase_latin1 ''PL'' = map lower_char ''PL''
   \<and> set (filteredOptions toLowerCase_latin1 fruit ''PL'') = {apple}
   \<and> is_disabled banana \<and> contains_ci lower_char (opt_label banana) ''AN''
   \<and> banana \<notin> set (filteredOptions toLowerCase_latin1 fruit ''AN'')"
proof -
  have d: "is_disabled banana" "\<not> is_disabled apple" "\<not> is_disabled cherry"
    by (simp_all add: is_disabled_def scenario_defs)
  have o: "options fruit = [apple, banana, cherry]" "searchable fruit"
    by (simp_all add: fruit_def)
  have l: "opt_label apple = ''Apple''" "opt_label banana = ''Banana''"
    "opt_label cherry = ''Cherry''"
    by (simp_all add: scenario_defs)
  have unitwise: "toLowerCase_latin1 ''PL'' = map lower_char ''PL''
        \<and> (\<forall>option \<in> set (options fruit).
              toLowerCase_latin1 (opt_label option) = map lower_char (opt_label option))"
    by (simp add: toLowerCase_latin1_def)
  have "set (filteredOptions toLowerCase_latin1 fruit ''PL'') =
      set (filter (\<lambda>option. \<not> is_disabled option
                     \<and> (searchable fruit \<longrightarrow> contains_ci lower_char (opt_label option) ''PL''))
             (options fruit))"
    using filteredOptions_visible_set
      [of toLowerCase_latin1 fruit "''PL''" lower_char,
       THEN conjunct2, THEN conjunct2, THEN conjunct2, rule_format, OF unitwise]
    by (simp only: set_filter)
  also have "\<dots> = {apple}"
    by (simp add: o contains_ci_scenario d l)
  finally have "set (filteredOptions toLowerCase_latin1 fruit ''PL'') = {apple}" .
  moreover have "banana \<notin> set (filteredOptions toLowerCase_latin1 fruit ''AN'')"
    using filteredOptions_visible_set
      [of toLowerCase_latin1 fruit "''AN''",
       THEN conjunct2, THEN conjunct2, THEN conjunct1] d(1)
    by (simp add: o)
  ultimately show ?thesis
    using contains_ci_scenario(4) d(1) l(2) by (simp add: toLowerCase_latin1_def)
qed

text \<open>
  C3, as the specification states it: with the options Apple, Banana (disabled) and
  Cherry, \<open>searchable = true\<close> and the search term \<open>an\<close>, the visible list would be
  the single option Apple. It is not: \<open>apple\<close> does not contain \<open>an\<close>.
\<close>

theorem scenario_an_counterexample:
  "options fruit = [apple, banana, cherry] \<and> searchable fruit
   \<and> filteredOptions toLowerCase_latin1 fruit ''an'' \<noteq> [apple]"
  by (simp add: eval_defs)

text \<open>
  C3, amended. For that input the visible list is empty: Banana is the only option whose
  label contains \<open>an\<close>, and it is disabled.
\<close>

theorem scenario_an_filtered_empty:
  "filteredOptions toLowerCase_latin1
     \<lparr>options = [\<lparr>opt_value = ''a'', opt_label = ''Apple'', opt_disabled = None\<rparr>,
                 \<lparr>opt_value = ''b'', opt_label = ''Banana'', opt_disabled = Some True\<rparr>,
                 \<lparr>opt_value = ''c'', opt_label = ''Cherry'', opt_disabled = None\<rparr>],
      onChange = oc, searchable = True, disabled = d\<rparr> ''an'' = []"
  by (simp add: filteredOptions_def is_disabled_def toLowerCase_latin1_def lower_char_def
        char_of_def bit_Suc_0_iff)

section \<open>Properties of the handlers\<close>

lemma filteredOptions_enabled:
  "option \<in> set (filteredOptions toLowerCase p term) \<Longrightarrow> \<not> is_disabled option"
  by (auto simp: filteredOptions_def split: if_splits)

lemma filteredOptions_nth_enabled:
  "i < length (filteredOptions toLowerCase p term) \<Longrightarrow> \<not> is_disabled (filteredOptions toLowerCase p term ! i)"
  using filteredOptions_enabled nth_mem by blast

lemma handleSelect_enabled:
  "\<not> is_disabled option \<Longrightarrow>
     handleSelect p option st
       = (\<lparr>isOpen = False, searchTerm = [], focusedIndex = - 1\<rparr>,
          case onChange p of None \<Rightarrow> [] | Some f \<Rightarrow> [opt_value option])"
  by (simp add: handleSelect_def)

lemma handleSelect_calls:
  "snd (handleSelect p option st) \<noteq> [] \<longleftrightarrow> \<not> is_disabled option \<and> onChange p \<noteq> None"
  by (auto simp: handleSelect_def split: option.splits)

lemma handleKeyDown_Enter_valid:
  assumes "isOpen st" and "0 \<le> focusedIndex st"
    and "focusedIndex st < int (length (filteredOptions toLowerCase p (searchTerm st)))"
  shows "handleKeyDown toLowerCase p ''Enter'' st
     = handleSelect p (filteredOptions toLowerCase p (searchTerm st) ! nat (focusedIndex st)) st"
  using assms by (simp add: handleKeyDown_def Let_def)

lemma handleKeyDown_Enter_invalid:
  assumes "isOpen st"
    and "\<not> (0 \<le> focusedIndex st
            \<and> focusedIndex st < int (length (filteredOptions toLowerCase p (searchTerm st))))"
  shows "handleKeyDown toLowerCase p ''Enter'' st = (st, [])"
proof -
  have "(if 0 \<le> focusedIndex st
            \<and> focusedIndex st < int (length (filteredOptions toLowerCase p (searchTerm st)))
         then handleSelect p
                (filteredOptions toLowerCase p (searchTerm st) ! nat (focusedIndex st)) st
         else (st, [])) = (st, [])"
    using assms(2) by (rule if_not_P)
  then show ?thesis
    using assms(1) by (simp add: handleKeyDown_def Let_def)
qed

lemma handleKeyDown_calls:
  assumes "snd (handleKeyDown toLowerCase p key st) \<noteq> []"
  shows "key = ''Enter'' \<and> isOpen st \<and> 0 \<le> focusedIndex st
     \<and> focusedIndex st < int (length (filteredOptions toLowerCase p (searchTerm st)))"
proof -
  have opn: "isOpen st"
    using assms by (auto simp: handleKeyDown_def Let_def split: if_splits)
  have key: "key = ''Enter''"
    using assms opn by (simp add: handleKeyDown_def Let_def split: if_splits)
  have "0 \<le> focusedIndex st
      \<and> focusedIndex st < int (length (filteredOptions toLowerCase p (searchTerm st)))"
    using assms opn key by (simp add: handleKeyDown_def Let_def split: if_splits)
  then show ?thesis
    using opn key by simp
qed

lemma dispatch_calls:
  assumes "snd (dispatch toLowerCase p ev st) \<noteq> []"
  shows "isOpen st \<and>
     ((ev = ButtonKeyDown ''Enter'' \<and> \<not> disabled p \<and> 0 \<le> focusedIndex st
         \<and> focusedIndex st < int (length (filteredOptions toLowerCase p (searchTerm st))))
      \<or> (\<exists>index < length (filteredOptions toLowerCase p (searchTerm st)). ev = RowClick index))"
proof (cases ev)
  case ButtonClick
  then show ?thesis using assms by (simp add: dispatch_def button_onClick_def)
next
  case (ButtonKeyDown key)
  then have enabled: "\<not> disabled p"
    and d: "snd (handleKeyDown toLowerCase p key st) \<noteq> []"
    using assms by (simp_all add: dispatch_def split: if_splits)
  from handleKeyDown_calls [OF d] enabled ButtonKeyDown show ?thesis
    by simp
next
  case (SearchInput t)
  then show ?thesis using assms by (simp add: dispatch_def search_onChange_def)
next
  case (RowMouseEnter index)
  then show ?thesis using assms by (simp add: dispatch_def row_onMouseEnter_def)
next
  case (RowClick index)
  then show ?thesis using assms by (simp add: dispatch_def Let_def split: if_splits)
next
  case (MouseDown inside)
  then show ?thesis using assms by (simp add: dispatch_def handleClickOutside_def)
qed

lemma dispatch_RowClick:
  "isOpen st \<Longrightarrow> index < length (filteredOptions toLowerCase p (searchTerm st)) \<Longrightarrow>
     dispatch toLowerCase p (RowClick index) st
       = handleSelect p (filteredOptions toLowerCase p (searchTerm st) ! index) st"
  by (simp add: dispatch_def)

lemma dispatch_Enter_valid:
  assumes "isOpen st" and "\<not> disabled p" and "0 \<le> focusedIndex st"
    and "focusedIndex st < int (length (filteredOptions toLowerCase p (searchTerm st)))"
  shows "dispatch toLowerCase p (ButtonKeyDown ''Enter'') st
     = handleSelect p (filteredOptions toLowerCase p (searchTerm st) ! nat (focusedIndex st)) st
   \<and> \<not> is_disabled (filteredOptions toLowerCase p (searchTerm st) ! nat (focusedIndex st))"
proof -
  have "nat (focusedIndex st) < length (filteredOptions toLowerCase p (searchTerm st))"
    using assms(3,4) by linarith
  then have "\<not> is_disabled (filteredOptions toLowerCase p (searchTerm st) ! nat (focusedIndex st))"
    by (rule filteredOptions_nth_enabled)
  moreover have "dispatch toLowerCase p (ButtonKeyDown ''Enter'') st
     = handleSelect p (filteredOptions toLowerCase p (searchTerm st) ! nat (focusedIndex st)) st"
    using assms(2) handleKeyDown_Enter_valid [OF assms(1,3,4)] by (simp add: dispatch_def)
  ultimately show ?thesis
    by simp
qed

lemma dispatch_commits:
  assumes "isOpen st"
    and "(ev = ButtonKeyDown ''Enter'' \<and> \<not> disabled p \<and> 0 \<le> focusedIndex st
            \<and> focusedIndex st < int (length (filteredOptions toLowerCase p (searchTerm st))))
         \<or> (\<exists>index < length (filteredOptions toLowerCase p (searchTerm st)). ev = RowClick index)"
  shows "\<exists>option. \<not> is_disabled option
           \<and> dispatch toLowerCase p ev st = handleSelect p option st"
  using assms(2)
proof
  assume "ev = ButtonKeyDown ''Enter'' \<and> \<not> disabled p \<and> 0 \<le> focusedIndex st
            \<and> focusedIndex st < int (length (filteredOptions toLowerCase p (searchTerm st)))"
  then show ?thesis
    using dispatch_Enter_valid [OF assms(1), of p toLowerCase] by blast
next
  assume "\<exists>index < length (filteredOptions toLowerCase p (searchTerm st)). ev = RowClick index"
  then obtain index where index: "index < length (filteredOptions toLowerCase p (searchTerm st))"
    and ev: "ev = RowClick index"
    by blast
  have "\<not> is_disabled (filteredOptions toLowerCase p (searchTerm st) ! index)"
    using index by (rule filteredOptions_nth_enabled)
  moreover have "dispatch toLowerCase p ev st
      = handleSelect p (filteredOptions toLowerCase p (searchTerm st) ! index) st"
    unfolding ev using assms(1) index by (rule dispatch_RowClick)
  ultimately show ?thesis
    by blast
qed

lemma handleKeyDown_closed:
  "\<not> isOpen st \<Longrightarrow> focusedIndex (fst (handleKeyDown toLowerCase p key st)) = focusedIndex st
     \<and> searchTerm (fst (handleKeyDown toLowerCase p key st)) = searchTerm st"
  by (simp add: handleKeyDown_def)

lemma handleKeyDown_ArrowDown:
  "isOpen st \<Longrightarrow> handleKeyDown toLowerCase p ''ArrowDown'' st =
     (st\<lparr>focusedIndex :=
          (if focusedIndex st < int (length (filteredOptions toLowerCase p (searchTerm st))) - 1
           then focusedIndex st + 1 else 0)\<rparr>, [])"
  by (simp add: handleKeyDown_def Let_def)

lemma handleKeyDown_ArrowUp:
  "isOpen st \<Longrightarrow> handleKeyDown toLowerCase p ''ArrowUp'' st =
     (st\<lparr>focusedIndex :=
          (if focusedIndex st > 0 then focusedIndex st - 1
           else int (length (filteredOptions toLowerCase p (searchTerm st))) - 1)\<rparr>, [])"
  by (simp add: handleKeyDown_def Let_def)

lemma handleSelect_state:
  "fst (handleSelect p option st) = st
   \<or> fst (handleSelect p option st) = \<lparr>isOpen = False, searchTerm = [], focusedIndex = - 1\<rparr>"
  by (simp add: handleSelect_def)

lemma handleKeyDown_other:
  assumes "isOpen st" and "key \<noteq> ''ArrowDown''" and "key \<noteq> ''ArrowUp''"
  shows "fst (handleKeyDown toLowerCase p key st) = st
   \<or> fst (handleKeyDown toLowerCase p key st) = \<lparr>isOpen = False, searchTerm = [], focusedIndex = - 1\<rparr>"
proof (cases "key = ''Enter''")
  case True
  then show ?thesis
    using assms(1)
      handleSelect_state [of p "filteredOptions toLowerCase p (searchTerm st) ! nat (focusedIndex st)" st]
    by (simp add: handleKeyDown_def Let_def)
next
  case False
  then show ?thesis
    using assms by (simp add: handleKeyDown_def Let_def)
qed

lemma focus_ok_fields:
  "focusedIndex st' = focusedIndex st \<Longrightarrow> searchTerm st' = searchTerm st \<Longrightarrow>
     focus_ok toLowerCase p st' = focus_ok toLowerCase p st"
  by (simp add: focus_ok_def)

lemma focus_ok_reset: "focus_ok toLowerCase p \<lparr>isOpen = False, searchTerm = [], focusedIndex = - 1\<rparr>"
  by (simp add: focus_ok_def)

lemma focus_keyDown_closed:
  assumes "focus_ok toLowerCase p st" "\<not> isOpen st"
  shows "focus_ok toLowerCase p (fst (handleKeyDown toLowerCase p key st)) \<longleftrightarrow>
     \<not> (key = ''ArrowDown'' \<and> isOpen st \<and> filteredOptions toLowerCase p (searchTerm st) = [])"
proof -
  have "focus_ok toLowerCase p (fst (handleKeyDown toLowerCase p key st)) = focus_ok toLowerCase p st"
    using handleKeyDown_closed [OF assms(2), of toLowerCase p key] by (intro focus_ok_fields) simp_all
  then show ?thesis
    using assms by simp
qed

lemma focus_keyDown_ArrowDown:
  assumes "focus_ok toLowerCase p st" "isOpen st"
  shows "focus_ok toLowerCase p (fst (handleKeyDown toLowerCase p ''ArrowDown'' st)) \<longleftrightarrow>
     filteredOptions toLowerCase p (searchTerm st) \<noteq> []"
proof -
  let ?n = "int (length (filteredOptions toLowerCase p (searchTerm st)))"
  have n: "?n = 0 \<longleftrightarrow> filteredOptions toLowerCase p (searchTerm st) = []"
    by simp
  have "focus_ok toLowerCase p (fst (handleKeyDown toLowerCase p ''ArrowDown'' st)) \<longleftrightarrow> 0 < ?n"
    using assms(1) unfolding handleKeyDown_ArrowDown [OF assms(2)] focus_ok_def
    by (simp del: of_nat_eq_0_iff of_nat_0_less_iff) linarith
  then show ?thesis
    by simp
qed

lemma focus_keyDown_ArrowUp:
  assumes "focus_ok toLowerCase p st" "isOpen st"
  shows "focus_ok toLowerCase p (fst (handleKeyDown toLowerCase p ''ArrowUp'' st))"
  using assms(1) unfolding handleKeyDown_ArrowUp [OF assms(2)] focus_ok_def
  by (simp del: of_nat_eq_0_iff of_nat_0_less_iff) linarith

lemma focus_keyDown_other:
  assumes "focus_ok toLowerCase p st" "isOpen st" "key \<noteq> ''ArrowDown''" "key \<noteq> ''ArrowUp''"
  shows "focus_ok toLowerCase p (fst (handleKeyDown toLowerCase p key st))"
proof -
  from handleKeyDown_other [OF assms(2,3,4), of toLowerCase p]
  consider "fst (handleKeyDown toLowerCase p key st) = st"
    | "fst (handleKeyDown toLowerCase p key st) = \<lparr>isOpen = False, searchTerm = [], focusedIndex = - 1\<rparr>"
    by blast
  then show ?thesis
  proof cases
    case 1
    then show ?thesis using assms(1) by simp
  next
    case 2
    then show ?thesis using focus_ok_reset [of toLowerCase p] by simp
  qed
qed

lemma focus_keyDown:
  assumes "focus_ok toLowerCase p st"
  shows "focus_ok toLowerCase p (fst (handleKeyDown toLowerCase p key st)) \<longleftrightarrow>
     \<not> (key = ''ArrowDown'' \<and> isOpen st \<and> filteredOptions toLowerCase p (searchTerm st) = [])"
proof (cases "isOpen st")
  case False
  then show ?thesis
    using assms by (rule focus_keyDown_closed [rotated])
next
  case True
  consider (down) "key = ''ArrowDown''" | (up) "key = ''ArrowUp''"
    | (other) "key \<noteq> ''ArrowDown''" "key \<noteq> ''ArrowUp''"
    by blast
  then show ?thesis
  proof cases
    case down
    show ?thesis
      unfolding down using focus_keyDown_ArrowDown [OF assms True] True by simp
  next
    case up
    have "focus_ok toLowerCase p (fst (handleKeyDown toLowerCase p ''ArrowUp'' st))"
      using assms True by (rule focus_keyDown_ArrowUp)
    then show ?thesis
      unfolding up by simp
  next
    case other
    have "focus_ok toLowerCase p (fst (handleKeyDown toLowerCase p key st))"
      using assms True other by (rule focus_keyDown_other)
    then show ?thesis
      using other(1) by simp
  qed
qed

lemma focus_step:
  assumes "focus_ok toLowerCase p st"
  shows "focus_ok toLowerCase p (fst (dispatch toLowerCase p ev st)) \<longleftrightarrow> \<not> unfocuses toLowerCase p ev st"
proof (cases ev)
  case ButtonClick
  then show ?thesis
    using assms by (simp add: focus_ok_def unfocuses_def dispatch_def button_onClick_def)
next
  case (ButtonKeyDown key)
  then show ?thesis
    using assms focus_keyDown [OF assms, of key]
    by (simp add: unfocuses_def dispatch_def)
next
  case (SearchInput t)
  then show ?thesis
    using assms by (auto simp: focus_ok_def unfocuses_def dispatch_def search_onChange_def)
next
  case (RowMouseEnter index)
  then show ?thesis
    using assms by (auto simp: focus_ok_def unfocuses_def dispatch_def row_onMouseEnter_def Let_def)
next
  case (RowClick index)
  then show ?thesis
    using assms handleSelect_state [of p "filteredOptions toLowerCase p (searchTerm st) ! index" st]
      focus_ok_reset [of toLowerCase p]
    by (auto simp: unfocuses_def dispatch_def Let_def)
next
  case (MouseDown inside)
  then show ?thesis
    using assms by (simp add: focus_ok_def unfocuses_def dispatch_def handleClickOutside_def)
qed

lemma keyDown_lower:
  assumes le: "- 1 \<le> focusedIndex st"
  shows "- 1 \<le> focusedIndex (fst (handleKeyDown toLowerCase p key st))"
proof (cases "isOpen st")
  case False
  then show ?thesis
    using le handleKeyDown_closed [of st toLowerCase p key] by simp
next
  case True
  consider (down) "key = ''ArrowDown''" | (up) "key = ''ArrowUp''"
    | (other) "key \<noteq> ''ArrowDown''" "key \<noteq> ''ArrowUp''"
    by blast
  then show ?thesis
  proof cases
    case down
    show ?thesis
      unfolding down handleKeyDown_ArrowDown [OF True] using le by simp
  next
    case up
    show ?thesis
      unfolding up handleKeyDown_ArrowUp [OF True] using le by simp
  next
    case other
    from handleKeyDown_other [OF True other, of toLowerCase p]
    consider "fst (handleKeyDown toLowerCase p key st) = st"
      | "fst (handleKeyDown toLowerCase p key st)
           = \<lparr>isOpen = False, searchTerm = [], focusedIndex = - 1\<rparr>"
      by blast
    then show ?thesis
    proof cases
      case 1
      then show ?thesis using le by simp
    next
      case 2
      then show ?thesis by simp
    qed
  qed
qed

lemma lower_step:
  assumes "- 1 \<le> focusedIndex st"
  shows "- 1 \<le> focusedIndex (fst (dispatch toLowerCase p ev st))"
proof (cases ev)
  case (ButtonKeyDown key)
  then show ?thesis
    using assms keyDown_lower [OF assms, of toLowerCase p key] by (simp add: dispatch_def)
next
  case (RowClick index)
  then show ?thesis
    using assms handleSelect_state [of p "filteredOptions toLowerCase p (searchTerm st) ! index" st]
    by (auto simp: dispatch_def Let_def)
qed (use assms in \<open>simp_all add: dispatch_def button_onClick_def search_onChange_def
       row_onMouseEnter_def handleClickOutside_def\<close>)

lemma run_Cons_fst:
  "fst (run toLowerCase p (ev # evs) (st, calls))
     = fst (run toLowerCase p evs (fst (dispatch toLowerCase p ev st), calls @ snd (dispatch toLowerCase p ev st)))"
  by (simp split: prod.splits)

lemma lower_run:
  "- 1 \<le> focusedIndex st \<Longrightarrow> - 1 \<le> focusedIndex (fst (run toLowerCase p evs (st, calls)))"
proof (induction evs arbitrary: st calls)
  case Nil
  then show ?case by simp
next
  case (Cons ev evs)
  show ?case
    unfolding run_Cons_fst by (rule Cons.IH) (rule lower_step [OF Cons.prems])
qed

lemma focus_run:
  "focus_ok toLowerCase p st \<Longrightarrow> \<not> unfocused_in toLowerCase p evs st \<Longrightarrow> focus_ok toLowerCase p (fst (run toLowerCase p evs (st, calls)))"
proof (induction evs arbitrary: st calls)
  case Nil
  then show ?case by simp
next
  case (Cons ev evs)
  from Cons.prems have "focus_ok toLowerCase p (fst (dispatch toLowerCase p ev st))"
    by (simp add: focus_step)
  moreover from Cons.prems have "\<not> unfocused_in toLowerCase p evs (fst (dispatch toLowerCase p ev st))"
    by simp
  ultimately show ?case
    unfolding run_Cons_fst by (rule Cons.IH)
qed

lemma run_no_options_ArrowDown:
  "run toLowerCase_latin1 no_options [ButtonClick, ButtonKeyDown ''ArrowDown''] (initialState, [])
     = (\<lparr>isOpen = True, searchTerm = [], focusedIndex = 0\<rparr>, [])"
  by (simp add: eval_defs)

lemma run_fruit_hover_search:
  "run toLowerCase_latin1 fruit [ButtonClick, RowMouseEnter 1, SearchInput ''ch''] (initialState, [])
     = (\<lparr>isOpen = True, searchTerm = ''ch'', focusedIndex = 1\<rparr>, [])"
  by (simp add: eval_defs)

lemma filteredOptions_no_options: "filteredOptions toLowerCase_latin1 no_options [] = []"
  by (simp add: eval_defs)

lemma filteredOptions_fruit_ch: "filteredOptions toLowerCase_latin1 fruit ''ch'' = [cherry]"
  by (simp add: eval_defs)

lemma filteredOptions_fruit_empty_term: "filteredOptions toLowerCase_latin1 fruit [] = [apple, cherry]"
  by (simp add: eval_defs)

text \<open>
  C2, as the specification states it: after every sequence of interactions
  \<open>focusedIndex\<close> is \<open>-1\<close> or a valid index into the currently filtered list,
  also after ArrowDown on an empty filtered list and after a change of the search term
  that shrinks the list. Opening a control without options and pressing ArrowDown gives
  \<open>focusedIndex = 0\<close> over an empty list; hovering over the second of two rows and
  then typing \<open>ch\<close> leaves \<open>focusedIndex = 1\<close> over a list of one.
\<close>

theorem focusedIndex_invariant_counterexample:
  "\<not> focus_ok toLowerCase_latin1 no_options
        (fst (run toLowerCase_latin1 no_options [ButtonClick, ButtonKeyDown ''ArrowDown''] (initialState, [])))
   \<and> \<not> focus_ok toLowerCase_latin1 fruit
        (fst (run toLowerCase_latin1 fruit [ButtonClick, RowMouseEnter 1, SearchInput ''ch''] (initialState, [])))"
  unfolding run_no_options_ArrowDown run_fruit_hover_search
  by (simp add: focus_ok_def filteredOptions_no_options filteredOptions_fruit_ch)

text \<open>
  C2, amended. From a state where \<open>focusedIndex\<close> is \<open>-1\<close> or a valid index into
  the filtered list, an interaction keeps it so exactly when it is neither ArrowDown on
  an open panel whose filtered list is empty nor a change of the search term to one whose
  filtered list is not longer than \<open>focusedIndex\<close>. So after every sequence of
  interactions without these two, \<open>focusedIndex\<close> is \<open>-1\<close> or a valid index into
  the currently filtered list; and after every sequence whatsoever it is at least \<open>-1\<close>.
\<close>

theorem focusedIndex_invariant_amended:
  "(focus_ok toLowerCase p st \<longrightarrow> (focus_ok toLowerCase p (fst (dispatch toLowerCase p ev st)) \<longleftrightarrow> \<not> unfocuses toLowerCase p ev st))
   \<and> (\<not> unfocused_in toLowerCase p evs initialState \<longrightarrow> focus_ok toLowerCase p (fst (run toLowerCase p evs (initialState, []))))
   \<and> - 1 \<le> focusedIndex (fst (run toLowerCase p evs (initialState, [])))"
proof (intro conjI impI)
  assume "focus_ok toLowerCase p st"
  then show "focus_ok toLowerCase p (fst (dispatch toLowerCase p ev st)) \<longleftrightarrow> \<not> unfocuses toLowerCase p ev st"
    by (rule focus_step)
next
  assume "\<not> unfocused_in toLowerCase p evs initialState"
  moreover have "focus_ok toLowerCase p initialState"
    by (simp add: focus_ok_def initialState_def)
  ultimately show "focus_ok toLowerCase p (fst (run toLowerCase p evs (initialState, [])))"
    by (simp add: focus_run)
next
  show "- 1 \<le> focusedIndex (fst (run toLowerCase p evs (initialState, [])))"
    by (rule lower_run) (simp add: initialState_def)
qed

theorem focusedIndex_invariant_amended_witness:
  "focus_ok toLowerCase_latin1 fruit hovered
   \<and> unfocuses toLowerCase_latin1 fruit (SearchInput ''ch'') hovered
   \<and> \<not> focus_ok toLowerCase_latin1 fruit (fst (dispatch toLowerCase_latin1 fruit (SearchInput ''ch'') hovered))
   \<and> \<not> unfocused_in toLowerCase_latin1 fruit [ButtonClick, ButtonKeyDown ''ArrowUp''] initialState
   \<and> focus_ok toLowerCase_latin1 fruit (fst (run toLowerCase_latin1 fruit [ButtonClick, ButtonKeyDown ''ArrowUp''] (initialState, [])))
   \<and> focusedIndex (fst (run toLowerCase_latin1 fruit [ButtonClick, ButtonKeyDown ''ArrowUp''] (initialState, []))) = 1"
proof -
  have ok: "focus_ok toLowerCase_latin1 fruit hovered"
    by (simp add: focus_ok_def hovered_def filteredOptions_fruit_empty_term)
  have un: "unfocuses toLowerCase_latin1 fruit (SearchInput ''ch'') hovered"
    by (simp add: unfocuses_def hovered_def filteredOptions_fruit_ch) (simp add: fruit_def)
  have safe: "\<not> unfocused_in toLowerCase_latin1 fruit [ButtonClick, ButtonKeyDown ''ArrowUp''] initialState"
    by (simp add: unfocuses_def)
  have idx: "focusedIndex (fst (run toLowerCase_latin1 fruit [ButtonClick, ButtonKeyDown ''ArrowUp'']
      (initialState, []))) = 1"
    by (simp add: eval_defs)
  from focusedIndex_invariant_amended
    [of toLowerCase_latin1 fruit hovered "SearchInput ''ch''"
       "[ButtonClick, ButtonKeyDown ''ArrowUp'']"]
  show ?thesis
    using ok un safe idx by simp
qed

text \<open>
  C4. While the panel is open over a filtered list of size \<open>n > 0\<close> and
  \<open>focusedIndex\<close> is one of its indices: ArrowDown from the last index \<open>n - 1\<close>
  sets \<open>focusedIndex\<close> to 0 and otherwise advances it by one; ArrowUp from index 0
  sets it to \<open>n - 1\<close> and otherwise decrements it by one. Navigation is cyclic over
  the filtered list: the two keys step by one modulo \<open>n\<close> and undo each other.
\<close>

theorem arrow_navigation_cyclic:
  assumes "isOpen st" and "n = int (length (filteredOptions toLowerCase p (searchTerm st)))"
    and "0 \<le> focusedIndex st" and "focusedIndex st < n"
  shows "focusedIndex (fst (handleKeyDown toLowerCase p ''ArrowDown'' st))
           = (if focusedIndex st = n - 1 then 0 else focusedIndex st + 1)
       \<and> focusedIndex (fst (handleKeyDown toLowerCase p ''ArrowUp'' st))
           = (if focusedIndex st = 0 then n - 1 else focusedIndex st - 1)
       \<and> focusedIndex (fst (handleKeyDown toLowerCase p ''ArrowDown'' st)) = (focusedIndex st + 1) mod n
       \<and> focusedIndex (fst (handleKeyDown toLowerCase p ''ArrowUp'' st)) = (focusedIndex st - 1) mod n
       \<and> focusedIndex (fst (handleKeyDown toLowerCase p ''ArrowUp'' (fst (handleKeyDown toLowerCase p ''ArrowDown'' st))))
           = focusedIndex st
       \<and> focusedIndex (fst (handleKeyDown toLowerCase p ''ArrowDown'' (fst (handleKeyDown toLowerCase p ''ArrowUp'' st))))
           = focusedIndex st"
proof -
  have down: "fst (handleKeyDown toLowerCase p ''ArrowDown'' st)
      = st\<lparr>focusedIndex := (if focusedIndex st = n - 1 then 0 else focusedIndex st + 1)\<rparr>"
    using assms by (simp add: handleKeyDown_def Let_def)
  have up: "fst (handleKeyDown toLowerCase p ''ArrowUp'' st)
      = st\<lparr>focusedIndex := (if focusedIndex st = 0 then n - 1 else focusedIndex st - 1)\<rparr>"
    using assms by (simp add: handleKeyDown_def Let_def)
  have m1: "(focusedIndex st + 1) mod n
      = (if focusedIndex st = n - 1 then 0 else focusedIndex st + 1)"
    using assms(3,4) by (simp add: mod_pos_pos_trivial)
  have m2: "(focusedIndex st - 1) mod n
      = (if focusedIndex st = 0 then n - 1 else focusedIndex st - 1)"
    using assms(3,4) by (auto simp: mod_pos_pos_trivial zmod_minus1)
  have ud: "focusedIndex (fst (handleKeyDown toLowerCase p ''ArrowUp''
        (fst (handleKeyDown toLowerCase p ''ArrowDown'' st)))) = focusedIndex st"
    unfolding down using assms by (simp add: handleKeyDown_def Let_def)
  have du: "focusedIndex (fst (handleKeyDown toLowerCase p ''ArrowDown''
        (fst (handleKeyDown toLowerCase p ''ArrowUp'' st)))) = focusedIndex st"
    unfolding up using assms by (simp add: handleKeyDown_def Let_def)
  show ?thesis
    unfolding m1 m2 using ud du by (simp add: down up)
qed

theorem arrow_navigation_cyclic_witness:
  "isOpen hovered \<and> int (length (filteredOptions toLowerCase_latin1 fruit (searchTerm hovered))) = 2
   \<and> focusedIndex hovered = 1
   \<and> focusedIndex (fst (handleKeyDown toLowerCase_latin1 fruit ''ArrowDown'' hovered)) = 0
   \<and> focusedIndex (fst (handleKeyDown toLowerCase_latin1 fruit ''ArrowUp'' hovered)) = 0"
proof -
  have h: "isOpen hovered" "searchTerm hovered = []" "focusedIndex hovered = 1"
    by (simp_all add: hovered_def)
  have n: "(2::int) = int (length (filteredOptions toLowerCase_latin1 fruit (searchTerm hovered)))"
    by (simp add: h filteredOptions_fruit_empty_term)
  from arrow_navigation_cyclic [of hovered 2 toLowerCase_latin1 fruit, OF h(1) n]
  show ?thesis
    using h n by simp
qed

text \<open>
  C5. A selection commit of an option that is not disabled sets the state to closed,
  empty search term and \<open>focusedIndex = -1\<close>, and calls \<open>onChange\<close> (when the prop is
  given) once, with that option's value. A click on a row, and Enter on an open panel
  whose \<open>focusedIndex\<close> is a valid index, are this commit of that row's option, which
  is never disabled; Enter on an open panel whose \<open>focusedIndex\<close> is not a valid index
  changes nothing. It is the only path to \<open>onChange\<close>: an interaction calls
  \<open>onChange\<close> exactly when the prop is given, the panel is open and the interaction is
  Enter on a valid \<open>focusedIndex\<close> or a click on a row; the call is then the single
  one with the value of the focused, respectively clicked, option, and the state is reset.
\<close>

theorem selection_commit:
  "(\<not> is_disabled option \<longrightarrow>
      fst (handleSelect p option st) = \<lparr>isOpen = False, searchTerm = [], focusedIndex = - 1\<rparr>
      \<and> (onChange p \<noteq> None \<longrightarrow> snd (handleSelect p option st) = [opt_value option]))
   \<and> (isOpen st \<and> index < length (filteredOptions toLowerCase p (searchTerm st)) \<longrightarrow>
        \<not> is_disabled (filteredOptions toLowerCase p (searchTerm st) ! index)
        \<and> dispatch toLowerCase p (RowClick index) st
            = handleSelect p (filteredOptions toLowerCase p (searchTerm st) ! index) st)
   \<and> (isOpen st \<and> \<not> disabled p \<and> 0 \<le> focusedIndex st
        \<and> focusedIndex st < int (length (filteredOptions toLowerCase p (searchTerm st))) \<longrightarrow>
        \<not> is_disabled (filteredOptions toLowerCase p (searchTerm st) ! nat (focusedIndex st))
        \<and> dispatch toLowerCase p (ButtonKeyDown ''Enter'') st
            = handleSelect p
                (filteredOptions toLowerCase p (searchTerm st) ! nat (focusedIndex st)) st)
   \<and> (isOpen st
        \<and> \<not> (0 \<le> focusedIndex st
               \<and> focusedIndex st < int (length (filteredOptions toLowerCase p (searchTerm st))))
        \<longrightarrow> handleKeyDown toLowerCase p ''Enter'' st = (st, [])
            \<and> dispatch toLowerCase p (ButtonKeyDown ''Enter'') st = (st, []))
   \<and> (snd (dispatch toLowerCase p ev st) \<noteq> [] \<longleftrightarrow>
        onChange p \<noteq> None \<and> isOpen st
        \<and> ((ev = ButtonKeyDown ''Enter'' \<and> \<not> disabled p \<and> 0 \<le> focusedIndex st
              \<and> focusedIndex st < int (length (filteredOptions toLowerCase p (searchTerm st))))
            \<or> (\<exists>index < length (filteredOptions toLowerCase p (searchTerm st)).
                  ev = RowClick index)))
   \<and> (snd (dispatch toLowerCase p ev st) \<noteq> [] \<longrightarrow>
        (ev = ButtonKeyDown ''Enter'' \<longrightarrow>
           dispatch toLowerCase p ev st
             = (\<lparr>isOpen = False, searchTerm = [], focusedIndex = - 1\<rparr>,
                [opt_value (filteredOptions toLowerCase p (searchTerm st)
                              ! nat (focusedIndex st))]))
        \<and> (\<forall>index. ev = RowClick index \<longrightarrow>
              dispatch toLowerCase p ev st
                = (\<lparr>isOpen = False, searchTerm = [], focusedIndex = - 1\<rparr>,
                   [opt_value (filteredOptions toLowerCase p (searchTerm st) ! index)])))"
proof -
  let ?filtered = "filteredOptions toLowerCase p (searchTerm st)"
  let ?reset = "\<lparr>isOpen = False, searchTerm = [], focusedIndex = - 1\<rparr> :: 'a ControlState"
  have commit: "\<not> is_disabled option \<longrightarrow>
      fst (handleSelect p option st) = ?reset
      \<and> (onChange p \<noteq> None \<longrightarrow> snd (handleSelect p option st) = [opt_value option])"
    by (auto simp: handleSelect_def)
  have click: "isOpen st \<and> index < length ?filtered \<longrightarrow>
        \<not> is_disabled (?filtered ! index)
        \<and> dispatch toLowerCase p (RowClick index) st = handleSelect p (?filtered ! index) st"
    by (simp add: filteredOptions_nth_enabled dispatch_RowClick)
  have enter: "isOpen st \<and> \<not> disabled p \<and> 0 \<le> focusedIndex st
        \<and> focusedIndex st < int (length ?filtered) \<longrightarrow>
        \<not> is_disabled (?filtered ! nat (focusedIndex st))
        \<and> dispatch toLowerCase p (ButtonKeyDown ''Enter'') st
            = handleSelect p (?filtered ! nat (focusedIndex st)) st"
    using dispatch_Enter_valid [of st p toLowerCase] by blast
  have noop: "isOpen st
        \<and> \<not> (0 \<le> focusedIndex st \<and> focusedIndex st < int (length ?filtered))
        \<longrightarrow> handleKeyDown toLowerCase p ''Enter'' st = (st, [])
            \<and> dispatch toLowerCase p (ButtonKeyDown ''Enter'') st = (st, [])"
  proof
    assume a: "isOpen st
        \<and> \<not> (0 \<le> focusedIndex st \<and> focusedIndex st < int (length ?filtered))"
    then have "handleKeyDown toLowerCase p ''Enter'' st = (st, [])"
      by (intro handleKeyDown_Enter_invalid) simp_all
    then show "handleKeyDown toLowerCase p ''Enter'' st = (st, [])
            \<and> dispatch toLowerCase p (ButtonKeyDown ''Enter'') st = (st, [])"
      by (simp add: dispatch_def)
  qed
  have only: "snd (dispatch toLowerCase p ev st) \<noteq> [] \<longleftrightarrow>
        onChange p \<noteq> None \<and> isOpen st
        \<and> ((ev = ButtonKeyDown ''Enter'' \<and> \<not> disabled p \<and> 0 \<le> focusedIndex st
              \<and> focusedIndex st < int (length ?filtered))
            \<or> (\<exists>index < length ?filtered. ev = RowClick index))"
    (is "?calls \<longleftrightarrow> ?given \<and> isOpen st \<and> (?enter \<or> ?click)")
  proof
    assume calls: ?calls
    from dispatch_calls [OF calls] have path: "isOpen st \<and> (?enter \<or> ?click)" .
    then obtain option where "dispatch toLowerCase p ev st = handleSelect p option st"
      using dispatch_commits [of st ev p toLowerCase] by blast
    then have ?given
      using calls by (simp add: handleSelect_calls)
    then show "?given \<and> isOpen st \<and> (?enter \<or> ?click)"
      using path by simp
  next
    assume r: "?given \<and> isOpen st \<and> (?enter \<or> ?click)"
    then obtain option where "\<not> is_disabled option"
      and "dispatch toLowerCase p ev st = handleSelect p option st"
      using dispatch_commits [of st ev p toLowerCase] by blast
    then show ?calls
      using r by (simp add: handleSelect_calls)
  qed
  have which: "snd (dispatch toLowerCase p ev st) \<noteq> [] \<longrightarrow>
        (ev = ButtonKeyDown ''Enter'' \<longrightarrow>
           dispatch toLowerCase p ev st
             = (?reset, [opt_value (?filtered ! nat (focusedIndex st))]))
        \<and> (\<forall>index. ev = RowClick index \<longrightarrow>
              dispatch toLowerCase p ev st = (?reset, [opt_value (?filtered ! index)]))"
  proof (intro impI conjI allI)
    assume calls: "snd (dispatch toLowerCase p ev st) \<noteq> []" and ev: "ev = ButtonKeyDown ''Enter''"
    from calls only ev have v: "isOpen st \<and> \<not> disabled p \<and> 0 \<le> focusedIndex st
        \<and> focusedIndex st < int (length ?filtered)" and given: "onChange p \<noteq> None"
      by simp_all
    from enter v have "\<not> is_disabled (?filtered ! nat (focusedIndex st))"
      and "dispatch toLowerCase p ev st = handleSelect p (?filtered ! nat (focusedIndex st)) st"
      unfolding ev by simp_all
    then show "dispatch toLowerCase p ev st
        = (?reset, [opt_value (?filtered ! nat (focusedIndex st))])"
      using given by (auto simp: handleSelect_enabled)
  next
    fix index
    assume calls: "snd (dispatch toLowerCase p ev st) \<noteq> []" and ev: "ev = RowClick index"
    from calls only ev have v: "isOpen st \<and> index < length ?filtered"
      and given: "onChange p \<noteq> None"
      by simp_all
    have "\<not> is_disabled (?filtered ! index)"
      using v by (simp add: filteredOptions_nth_enabled)
    moreover have "dispatch toLowerCase p ev st = handleSelect p (?filtered ! index) st"
      unfolding ev using v by (simp add: dispatch_RowClick)
    ultimately show "dispatch toLowerCase p ev st = (?reset, [opt_value (?filtered ! index)])"
      using given by (auto simp: handleSelect_enabled)
  qed
  from commit click enter noop only which show ?thesis
    by (intro conjI)
qed

theorem selection_commit_witness:
  "\<not> is_disabled cherry \<and> onChange fruit \<noteq> None
   \<and> handleSelect fruit cherry hovered
       = (\<lparr>isOpen = False, searchTerm = [], focusedIndex = - 1\<rparr>, [''c''])
   \<and> dispatch toLowerCase_latin1 fruit (RowClick 1) hovered
       = (\<lparr>isOpen = False, searchTerm = [], focusedIndex = - 1\<rparr>, [''c''])
   \<and> dispatch toLowerCase_latin1 fruit (ButtonKeyDown ''Enter'') hovered
       = (\<lparr>isOpen = False, searchTerm = [], focusedIndex = - 1\<rparr>, [''c''])
   \<and> dispatch toLowerCase_latin1 fruit (ButtonKeyDown ''Enter'')
        \<lparr>isOpen = True, searchTerm = [], focusedIndex = - 1\<rparr>
       = (\<lparr>isOpen = True, searchTerm = [], focusedIndex = - 1\<rparr>, [])"
proof -
  let ?unfocused = "\<lparr>isOpen = True, searchTerm = ([] :: string), focusedIndex = - 1\<rparr>"
  have h: "isOpen hovered" "searchTerm hovered = []" "focusedIndex hovered = 1"
    by (simp_all add: hovered_def)
  have e: "\<not> is_disabled cherry" "onChange fruit \<noteq> None" "\<not> disabled fruit"
    "opt_value cherry = ''c''"
    by (simp_all add: is_disabled_def scenario_defs)
  have row: "filteredOptions toLowerCase_latin1 fruit (searchTerm hovered) = [apple, cherry]"
    by (simp add: h filteredOptions_fruit_empty_term)
  note commits = selection_commit
    [where option = cherry and p = fruit and st = hovered and index = 1
       and ev = "RowClick 1" and toLowerCase = toLowerCase_latin1]
  have commit: "handleSelect fruit cherry hovered
       = (\<lparr>isOpen = False, searchTerm = [], focusedIndex = - 1\<rparr>, [''c''])"
    using commits [THEN conjunct1] e by (simp add: prod_eq_iff)
  have click: "dispatch toLowerCase_latin1 fruit (RowClick 1) hovered
       = (\<lparr>isOpen = False, searchTerm = [], focusedIndex = - 1\<rparr>, [''c''])"
    using commits [THEN conjunct2, THEN conjunct1] h(1) by (simp add: row commit)
  have enter: "dispatch toLowerCase_latin1 fruit (ButtonKeyDown ''Enter'') hovered
       = (\<lparr>isOpen = False, searchTerm = [], focusedIndex = - 1\<rparr>, [''c''])"
    using commits [THEN conjunct2, THEN conjunct2, THEN conjunct1] h(1,3) e(3)
    by (simp add: row commit)
  have noop: "dispatch toLowerCase_latin1 fruit (ButtonKeyDown ''Enter'') ?unfocused
       = (?unfocused, [])"
    using selection_commit
      [where p = fruit and st = ?unfocused and toLowerCase = toLowerCase_latin1,
       THEN conjunct2, THEN conjunct2, THEN conjunct2, THEN conjunct1]
    by simp
  show ?thesis
    using e(1,2) commit click enter noop by simp
qed

text \<open>
  C6. A selection commit of a disabled option does nothing: \<open>onChange\<close> is not called
  and the state, all three fields, is unchanged.
\<close>

theorem handleSelect_disabled_noop:
  "is_disabled option \<Longrightarrow>
     handleSelect p option st = (st, [])
     \<and> isOpen (fst (handleSelect p option st)) = isOpen st
     \<and> searchTerm (fst (handleSelect p option st)) = searchTerm st
     \<and> focusedIndex (fst (handleSelect p option st)) = focusedIndex st"
  by (simp add: handleSelect_def)

theorem handleSelect_disabled_noop_witness:
  "is_disabled banana \<and> handleSelect fruit banana hovered = (hovered, [])"
proof -
  have d: "is_disabled banana"
    by (simp add: is_disabled_def banana_def)
  from handleSelect_disabled_noop [OF d, of fruit hovered]
  show ?thesis
    using d by simp
qed

text \<open>
  C7. From every state, a pointer press whose target is outside the container sets the
  state to closed, empty search term and \<open>focusedIndex = -1\<close> and calls \<open>onChange\<close>
  not at all; so does the Escape key while the panel is open.
\<close>

theorem outside_press_and_escape_reset:
  "handleClickOutside True False st
     = (\<lparr>isOpen = False, searchTerm = [], focusedIndex = - 1\<rparr>, [])
   \<and> dispatch toLowerCase p (MouseDown False) st
     = (\<lparr>isOpen = False, searchTerm = [], focusedIndex = - 1\<rparr>, [])
   \<and> (isOpen st \<longrightarrow>
        handleKeyDown toLowerCase p ''Escape'' st
          = (\<lparr>isOpen = False, searchTerm = [], focusedIndex = - 1\<rparr>, [])
        \<and> (\<not> disabled p \<longrightarrow> dispatch toLowerCase p (ButtonKeyDown ''Escape'') st
          = (\<lparr>isOpen = False, searchTerm = [], focusedIndex = - 1\<rparr>, [])))"
  by (simp add: handleClickOutside_def dispatch_def handleKeyDown_def)

theorem outside_press_and_escape_reset_witness:
  "isOpen hovered \<and> \<not> disabled fruit
   \<and> dispatch toLowerCase_latin1 fruit (MouseDown False) hovered
       = (\<lparr>isOpen = False, searchTerm = [], focusedIndex = - 1\<rparr>, [])
   \<and> dispatch toLowerCase_latin1 fruit (ButtonKeyDown ''Escape'') hovered
       = (\<lparr>isOpen = False, searchTerm = [], focusedIndex = - 1\<rparr>, [])"
proof -
  have h: "isOpen hovered" "\<not> disabled fruit"
    by (simp_all add: hovered_def fruit_def)
  from outside_press_and_escape_reset [of hovered toLowerCase_latin1 fruit]
  show ?thesis
    using h by simp
qed

text \<open>
  C8. Whenever a closed control that is not disabled receives Enter, the panel should
  open with \<open>focusedIndex = -1\<close>, whatever happened before the control was closed. The
  code at one history: after open, ArrowDown and a second click on the button, the
  control is closed with \<open>focusedIndex\<close> still 0, because the button's toggle closes
  the panel without the reset that selection, Escape and the outside press perform; Enter
  then opens the panel with \<open>focusedIndex = 0\<close>.
\<close>

theorem enter_opens_after_toggle_close:
  "\<not> disabled fruit
   \<and> run toLowerCase_latin1 fruit [ButtonClick, ButtonKeyDown ''ArrowDown'', ButtonClick]
        (initialState, [])
       = (\<lparr>isOpen = False, searchTerm = [], focusedIndex = 0\<rparr>, [])
   \<and> run toLowerCase_latin1 fruit
        [ButtonClick, ButtonKeyDown ''ArrowDown'', ButtonClick, ButtonKeyDown ''Enter'']
        (initialState, [])
       = (\<lparr>isOpen = True, searchTerm = [], focusedIndex = 0\<rparr>, [])"
  by (simp add: eval_defs)

text \<open>
  C9. A click on the button while the panel is open (and the control is not disabled)
  sets \<open>isOpen\<close> to false and leaves \<open>searchTerm\<close> and \<open>focusedIndex\<close> as they
  were: this close path resets nothing.
\<close>

theorem toggle_close_keeps_fields:
  assumes "isOpen st" and "\<not> disabled p"
  shows "button_onClick p st = (st\<lparr>isOpen := False\<rparr>, [])
     \<and> \<not> isOpen (fst (button_onClick p st))
     \<and> searchTerm (fst (button_onClick p st)) = searchTerm st
     \<and> focusedIndex (fst (button_onClick p st)) = focusedIndex st
     \<and> dispatch toLowerCase p ButtonClick st = button_onClick p st"
  using assms by (simp add: button_onClick_def dispatch_def)

theorem toggle_close_keeps_fields_witness:
  "isOpen \<lparr>isOpen = True, searchTerm = ''ch'', focusedIndex = 0\<rparr> \<and> \<not> disabled fruit
   \<and> dispatch toLowerCase_latin1 fruit ButtonClick \<lparr>isOpen = True, searchTerm = ''ch'', focusedIndex = 0\<rparr>
       = (\<lparr>isOpen = False, searchTerm = ''ch'', focusedIndex = 0\<rparr>, [])"
proof -
  have o: "isOpen \<lparr>isOpen = True, searchTerm = ''ch'', focusedIndex = 0\<rparr>"
    by simp
  have e: "\<not> disabled fruit"
    by (simp add: fruit_def)
  from toggle_close_keeps_fields [OF o e, where toLowerCase = toLowerCase_latin1]
  show ?thesis
    using e by simp
qed

text \<open>
  C10. While the panel is open with \<open>focusedIndex = -1\<close>: over a filtered list that is
  not empty ArrowDown sets \<open>focusedIndex\<close> to 0 and ArrowUp sets it to the last index,
  \<open>length - 1\<close>; over an empty filtered list ArrowDown sets it to 0 and ArrowUp
  leaves it at \<open>-1\<close>.
\<close>

theorem arrows_from_no_focus:
  assumes "isOpen st" and "focusedIndex st = - 1"
  shows "(filteredOptions toLowerCase p (searchTerm st) \<noteq> [] \<longrightarrow>
            focusedIndex (fst (handleKeyDown toLowerCase p ''ArrowDown'' st)) = 0
          \<and> focusedIndex (fst (handleKeyDown toLowerCase p ''ArrowUp'' st))
              = int (length (filteredOptions toLowerCase p (searchTerm st))) - 1)
       \<and> (filteredOptions toLowerCase p (searchTerm st) = [] \<longrightarrow>
            focusedIndex (fst (handleKeyDown toLowerCase p ''ArrowDown'' st)) = 0
          \<and> focusedIndex (fst (handleKeyDown toLowerCase p ''ArrowUp'' st)) = - 1)"
  using assms by (simp add: handleKeyDown_def Let_def)

theorem arrows_from_no_focus_witness:
  "filteredOptions toLowerCase_latin1 fruit [] \<noteq> []
   \<and> focusedIndex (fst (handleKeyDown toLowerCase_latin1 fruit ''ArrowDown''
        \<lparr>isOpen = True, searchTerm = [], focusedIndex = - 1\<rparr>)) = 0
   \<and> focusedIndex (fst (handleKeyDown toLowerCase_latin1 fruit ''ArrowUp''
        \<lparr>isOpen = True, searchTerm = [], focusedIndex = - 1\<rparr>)) = 1
   \<and> filteredOptions toLowerCase_latin1 no_options [] = []
   \<and> focusedIndex (fst (handleKeyDown toLowerCase_latin1 no_options ''ArrowDown''
        \<lparr>isOpen = True, searchTerm = [], focusedIndex = - 1\<rparr>)) = 0
   \<and> focusedIndex (fst (handleKeyDown toLowerCase_latin1 no_options ''ArrowUp''
        \<lparr>isOpen = True, searchTerm = [], focusedIndex = - 1\<rparr>)) = - 1"
proof -
  let ?st = "\<lparr>isOpen = True, searchTerm = ([] :: string), focusedIndex = - 1\<rparr>"
  have o: "isOpen ?st" and f: "focusedIndex ?st = - 1"
    by simp_all
  from arrows_from_no_focus [OF o f, of toLowerCase_latin1 fruit]
    arrows_from_no_focus [OF o f, of toLowerCase_latin1 no_options]
  show ?thesis
    by (simp add: filteredOptions_fruit_empty_term filteredOptions_no_options)
qed

end
